theory Spec2Isabelle
  imports Complex_Main "HOL-Library.Multiset"
begin

section \<open>Data model (App.tsx, Types)\<close>

datatype Suit = Spades | Hearts | Diamonds | Clubs

text \<open>
  The union type \<open>Rank\<close> of the source: \<open>"A" | "2" | ... | "10" | "J" | "Q" | "K"\<close>.
  \<open>N2\<close> ... \<open>N10\<close> stand for the strings \<open>"2"\<close> ... \<open>"10"\<close>.
\<close>

datatype Rank = Ace | N2 | N3 | N4 | N5 | N6 | N7 | N8 | N9 | N10 | Jack | Queen | King

record Card =
  card_id :: string
  suit :: Suit
  rank :: Rank

datatype Phase = LOBBY | SHUFFLING | DEALING | INSURANCE | PLAYER | DEALER | RESULT

record Player =
  player_id :: string
  name :: string
  stack :: int
  bet :: int
  insuranceBet :: "int option"
  ready :: bool
  cards :: "Card list"
  status :: string
  result :: "string option"

record GameState =
  code :: string
  players :: "Player list"
  dealer :: "Card list"
  phase :: Phase
  turnIdx :: int

section \<open>Hand value (calculateValue)\<close>

text \<open>
  One iteration of the \<open>for (const c of cards)\<close> loop on the pair \<open>(sum, aces)\<close>:
  an ace adds 11 and increments the ace counter, \<open>J\<close>, \<open>Q\<close>, \<open>K\<close> add 10, and the
  remaining ranks add \<open>parseInt(c.rank)\<close>, which is the number the rank string spells.
\<close>

fun add_rank :: "Rank \<Rightarrow> int \<times> nat \<Rightarrow> int \<times> nat" where
  "add_rank Ace (tot, aces) = (tot + 11, aces + 1)"
| "add_rank Jack (tot, aces) = (tot + 10, aces)"
| "add_rank Queen (tot, aces) = (tot + 10, aces)"
| "add_rank King (tot, aces) = (tot + 10, aces)"
| "add_rank N2 (tot, aces) = (tot + 2, aces)"
| "add_rank N3 (tot, aces) = (tot + 3, aces)"
| "add_rank N4 (tot, aces) = (tot + 4, aces)"
| "add_rank N5 (tot, aces) = (tot + 5, aces)"
| "add_rank N6 (tot, aces) = (tot + 6, aces)"
| "add_rank N7 (tot, aces) = (tot + 7, aces)"
| "add_rank N8 (tot, aces) = (tot + 8, aces)"
| "add_rank N9 (tot, aces) = (tot + 9, aces)"
| "add_rank N10 (tot, aces) = (tot + 10, aces)"

fun tally :: "Card list \<Rightarrow> int \<times> nat \<Rightarrow> int \<times> nat" where
  "tally [] acc = acc"
| "tally (c # cs) acc = tally cs (add_rank (rank c) acc)"

text \<open>The loop \<open>while (sum > 21 && aces > 0) { sum -= 10; aces--; }\<close>.\<close>

function downgrade :: "int \<times> nat \<Rightarrow> int \<times> nat" where
  "downgrade (tot, aces) =
     (if tot > 21 \<and> aces > 0 then downgrade (tot - 10, aces - 1) else (tot, aces))"
  by pat_completeness auto
termination
  by (relation "measure snd") auto

declare downgrade.simps [simp del]

text \<open>The state \<open>(sum, aces)\<close> at the \<open>return\<close>, and the value returned.\<close>

definition final_tally :: "Card list \<Rightarrow> int \<times> nat" where
  "final_tally cs = downgrade (tally cs (0, 0))"

definition calculateValue :: "Card list \<Rightarrow> int" where
  "calculateValue cs = fst (final_tally cs)"

text \<open>The ace counter at the \<open>return\<close>: the aces still counted as 11.\<close>

definition soft_aces :: "Card list \<Rightarrow> nat" where
  "soft_aces cs = snd (final_tally cs)"

text \<open>Reference quantities used to state the properties: the total with every ace
  counted as 1, and the number of aces in the hand.\<close>

fun hard_points :: "Rank \<Rightarrow> int" where
  "hard_points Ace = 1"
| "hard_points Jack = 10"
| "hard_points Queen = 10"
| "hard_points King = 10"
| "hard_points N2 = 2"
| "hard_points N3 = 3"
| "hard_points N4 = 4"
| "hard_points N5 = 5"
| "hard_points N6 = 6"
| "hard_points N7 = 7"
| "hard_points N8 = 8"
| "hard_points N9 = 9"
| "hard_points N10 = 10"

definition hard_total :: "Card list \<Rightarrow> int" where
  "hard_total cs = sum_list (map (hard_points \<circ> rank) cs)"

definition ace_count :: "Card list \<Rightarrow> nat" where
  "ace_count cs = count_list (map rank cs) Ace"

section \<open>Sound cues (useSounds)\<close>

text \<open>
  The audio backend is modelled by the log of the calls made on it. Times passed to the
  backend are offsets from \<open>ctx.currentTime\<close>. \<open>available\<close> tells whether
  \<open>new AudioContext()\<close> succeeds; when it throws, the \<open>try\<close> block is left at once.
  Callbacks handed to \<open>setTimeout\<close> are kept, with their delay in milliseconds, in
  \<open>timeouts\<close>.
\<close>

datatype audio_node = Osc | Gain | Filter | Destination

datatype audio_call =
    NewAudioContext
  | CreateOscillator
  | CreateGain
  | CreateBiquadFilter
  | Connect audio_node audio_node
  | FilterType string
  | FilterFrequency real
  | OscFrequency real
  | OscFrequencyAt real real
  | OscFrequencyRampTo real real
  | GainValue real
  | GainAt real real
  | GainRampTo real real
  | Start real
  | Stop real

datatype deferred = BeepTone real real | ShuffleSlide

record audio_env =
  available :: bool
  calls :: "audio_call list"
  timeouts :: "(nat \<times> deferred) list"
  console :: "string list"

definition backend :: "audio_call list \<Rightarrow> audio_env \<Rightarrow> audio_env" where
  "backend cs env = env\<lparr>calls := calls env @ cs\<rparr>"

definition setTimeout_audio :: "deferred \<Rightarrow> nat \<Rightarrow> audio_env \<Rightarrow> audio_env" where
  "setTimeout_audio f delay env = env\<lparr>timeouts := timeouts env @ [(delay, f)]\<rparr>"

text \<open>The body of the callback that \<open>playBeep\<close> hands to \<open>setTimeout\<close>.\<close>

definition beep_tone :: "real \<Rightarrow> real \<Rightarrow> audio_env \<Rightarrow> audio_env" where
  "beep_tone freq duration env =
     (if available env then
        backend [NewAudioContext, CreateOscillator, CreateGain, Connect Osc Gain,
                 Connect Gain Destination, OscFrequency freq, GainValue 0.15,
                 Start 0, Stop duration] env
      else env\<lparr>console := console env @ [''Audio not supported'']\<rparr>)"

definition playBeep :: "bool \<Rightarrow> real \<Rightarrow> real \<Rightarrow> nat \<Rightarrow> audio_env \<Rightarrow> audio_env" where
  "playBeep muted freq duration delay env =
     (if muted then env else setTimeout_audio (BeepTone freq duration) delay env)"

text \<open>\<open>notes.forEach((note, i) => playBeep(note, 0.15, i * 120))\<close>, from index \<open>i\<close>.\<close>

fun melody_from :: "bool \<Rightarrow> nat \<Rightarrow> real list \<Rightarrow> audio_env \<Rightarrow> audio_env" where
  "melody_from muted i [] env = env"
| "melody_from muted i (note # notes) env =
     melody_from muted (i + 1) notes (playBeep muted note 0.15 (i * 120) env)"

definition playMelody :: "bool \<Rightarrow> real list \<Rightarrow> audio_env \<Rightarrow> audio_env" where
  "playMelody muted notes env = melody_from muted 0 notes env"

definition playCardSlide :: "bool \<Rightarrow> audio_env \<Rightarrow> audio_env" where
  "playCardSlide muted env =
     (if muted then env
      else if available env then
        backend [NewAudioContext, CreateOscillator, CreateGain, CreateBiquadFilter,
                 Connect Osc Filter, Connect Filter Gain, Connect Gain Destination,
                 FilterType ''lowpass'', FilterFrequency 2000,
                 OscFrequencyAt 150 0, OscFrequencyRampTo 100 0.15,
                 GainAt 0.2 0, GainRampTo 0.01 0.15,
                 Start 0, Stop 0.15] env
      else env)"

text \<open>One round of the \<open>times.forEach\<close> of \<open>playChipStack\<close>, for the entry \<open>time\<close> at
  index \<open>i\<close>.\<close>

definition chip_click :: "real \<Rightarrow> nat \<Rightarrow> audio_call list" where
  "chip_click time i =
     [CreateOscillator, CreateGain, Connect Osc Gain, Connect Gain Destination,
      OscFrequency (1000 + real i * 200), GainAt 0.15 time, GainRampTo 0.01 (time + 0.08),
      Start time, Stop (time + 0.08)]"

definition playChipStack :: "bool \<Rightarrow> audio_env \<Rightarrow> audio_env" where
  "playChipStack muted env =
     (if muted then env
      else if available env then
        backend (NewAudioContext # concat (map (\<lambda>(i, time). chip_click time i)
                   (enumerate 0 [0, 0.05, 0.1]))) env
      else env)"

text \<open>The callback of \<open>playShuffle\<close>; \<open>r1\<close> and \<open>r2\<close> are its two draws of
  \<open>Math.random()\<close>.\<close>

definition shuffle_slide :: "real \<Rightarrow> real \<Rightarrow> audio_env \<Rightarrow> audio_env" where
  "shuffle_slide r1 r2 env =
     backend [CreateOscillator, CreateGain, CreateBiquadFilter,
              Connect Osc Filter, Connect Filter Gain, Connect Gain Destination,
              FilterType ''bandpass'', FilterFrequency (800 + r1 * 400),
              OscFrequency (200 + r2 * 100), GainAt 0.1 0, GainRampTo 0.01 0.1,
              Start 0, Stop 0.1] env"

text \<open>Running a callback kept in \<open>timeouts\<close> when its delay has passed.\<close>

fun run_deferred :: "deferred \<Rightarrow> real \<Rightarrow> real \<Rightarrow> audio_env \<Rightarrow> audio_env" where
  "run_deferred (BeepTone freq duration) r1 r2 env = beep_tone freq duration env"
| "run_deferred ShuffleSlide r1 r2 env = shuffle_slide r1 r2 env"

fun shuffle_loop :: "nat list \<Rightarrow> audio_env \<Rightarrow> audio_env" where
  "shuffle_loop [] env = env"
| "shuffle_loop (i # is) env = shuffle_loop is (setTimeout_audio ShuffleSlide (i * 80) env)"

definition playShuffle :: "bool \<Rightarrow> audio_env \<Rightarrow> audio_env" where
  "playShuffle muted env =
     (if muted then env
      else if available env then shuffle_loop [0 ..< 8] (backend [NewAudioContext] env)
      else env)"

text \<open>The object \<open>sounds\<close> built by a render of the hook in which the state \<open>muted\<close> has
  the given value.\<close>

datatype cue = CardDeal | ChipBet | Win | Lose | Blackjack | Tick | Shuffle

fun sounds :: "bool \<Rightarrow> cue \<Rightarrow> audio_env \<Rightarrow> audio_env" where
  "sounds muted CardDeal = playCardSlide muted"
| "sounds muted ChipBet = playChipStack muted"
| "sounds muted Win = playMelody muted [523, 659, 784]"
| "sounds muted Lose = playBeep muted 150 0.5 0"
| "sounds muted Blackjack = playMelody muted [523, 659, 784, 1047, 1319]"
| "sounds muted Tick = playBeep muted 900 0.05 0"
| "sounds muted Shuffle = playShuffle muted"


section \<open>Connection hook (useWs)\<close>

text \<open>
  Values decoded by \<open>JSON.parse\<close>. The fields of an object are an association list as
  the decoder built it (one entry per key).
\<close>

datatype json =
    JNull
  | JBool bool
  | JNum real
  | JStr string
  | JArr "json list"
  | JObj "(string \<times> json) list"

datatype js_error = SyntaxError | TypeError | InvalidStateError

datatype readyState = CONNECTING | OPEN | CLOSING | CLOSED

text \<open>A socket: its \<open>readyState\<close> and the values whose \<open>JSON.stringify\<close> text was
  written to it, oldest first.\<close>

record WebSocket =
  readyState :: readyState
  sent :: "json list"

text \<open>
  The state of one instance of the hook: the sockets it has created (a socket is named
  by its position), the two refs, the timeouts it has pending in the window as pairs of
  handle and due time in milliseconds, the next fresh handle (handles are positive), the
  three React states, and the lines written with \<open>console.error\<close>.
  In \<open>state\<close>, \<open>None\<close> is \<open>undefined\<close>; the initial value is \<open>null\<close>.
\<close>

record ws_hook =
  sockets :: "WebSocket list"
  wsRef :: "nat option"
  reconnectTimeoutRef :: "nat option"
  pending :: "(nat \<times> nat) list"
  next_handle :: nat
  connected :: bool
  state :: "json option"
  reconnecting :: bool
  errors_logged :: "string list"

definition ws_init :: ws_hook where
  "ws_init = \<lparr>sockets = [], wsRef = None, reconnectTimeoutRef = None, pending = [],
     next_handle = 1, connected = False, state = Some JNull, reconnecting = False,
     errors_logged = []\<rparr>"

definition clearTimeout :: "nat \<Rightarrow> (nat \<times> nat) list \<Rightarrow> (nat \<times> nat) list" where
  "clearTimeout h ts = filter (\<lambda>(h', due). h' \<noteq> h) ts"

text \<open>\<open>wsRef.current?.readyState === WebSocket.OPEN\<close>.\<close>

definition is_open :: "ws_hook \<Rightarrow> bool" where
  "is_open s = (case wsRef s of None \<Rightarrow> False
                | Some i \<Rightarrow> i < length (sockets s) \<and> readyState (sockets s ! i) = OPEN)"

definition connect :: "ws_hook \<Rightarrow> ws_hook" where
  "connect s =
     (if is_open s then s
      else s\<lparr>reconnecting := True,
             sockets := sockets s @ [\<lparr>readyState = CONNECTING, sent = []\<rparr>],
             wsRef := Some (length (sockets s))\<rparr>)"

definition ws_onopen :: "ws_hook \<Rightarrow> ws_hook" where
  "ws_onopen s =
     (let s1 = s\<lparr>connected := True, reconnecting := False\<rparr>
      in case reconnectTimeoutRef s1 of
           None \<Rightarrow> s1
         | Some h \<Rightarrow>
             if h = 0 then s1
             else s1\<lparr>pending := clearTimeout h (pending s1), reconnectTimeoutRef := None\<rparr>)"

text \<open>The handler of a close event that arrives at time \<open>now\<close>. The callback of the
  timeout it sets is \<open>connect\<close>.\<close>

definition ws_onclose :: "nat \<Rightarrow> ws_hook \<Rightarrow> ws_hook" where
  "ws_onclose now s =
     s\<lparr>connected := False, reconnecting := True,
       pending := pending s @ [(next_handle s, now + 2000)],
       reconnectTimeoutRef := Some (next_handle s),
       next_handle := next_handle s + 1\<rparr>"

definition ws_onerror :: "ws_hook \<Rightarrow> ws_hook" where
  "ws_onerror s = s\<lparr>reconnecting := True\<rparr>"

text \<open>
  The body of the \<open>try\<close> block of \<open>ws.onmessage\<close>. \<open>parse\<close> is \<open>JSON.parse\<close>, with
  \<open>None\<close> for a text it rejects. Reading \<open>data.type\<close> throws a \<open>TypeError\<close> when
  \<open>data\<close> is \<open>null\<close> and gives \<open>undefined\<close> on a boolean, a number, a string or an
  array.
\<close>

definition onmessage_try :: "(string \<Rightarrow> json option) \<Rightarrow> string \<Rightarrow> ws_hook \<Rightarrow> js_error + ws_hook" where
  "onmessage_try parse text s =
     (case parse text of
        None \<Rightarrow> Inl SyntaxError
      | Some JNull \<Rightarrow> Inl TypeError
      | Some (JObj fs) \<Rightarrow>
          if map_of fs ''type'' = Some (JStr ''state'')
          then Inr (s\<lparr>state := map_of fs ''state''\<rparr>)
          else Inr s
      | Some _ \<Rightarrow> Inr s)"

text \<open>The handler: whatever the \<open>try\<close> block throws is caught and logged.\<close>

definition ws_onmessage :: "(string \<Rightarrow> json option) \<Rightarrow> string \<Rightarrow> ws_hook \<Rightarrow> js_error + ws_hook" where
  "ws_onmessage parse text s =
     (case onmessage_try parse text s of
        Inl err \<Rightarrow> Inr (s\<lparr>errors_logged := errors_logged s @ [''Parse error:'']\<rparr>)
      | Inr s' \<Rightarrow> Inr s')"

text \<open>
  \<open>WebSocket.send\<close>: it throws while the socket is still connecting, transmits on an
  open socket, and discards the data on a closing or closed one.
\<close>

definition socket_send :: "json \<Rightarrow> WebSocket \<Rightarrow> js_error + WebSocket" where
  "socket_send v w =
     (case readyState w of
        CONNECTING \<Rightarrow> Inl InvalidStateError
      | OPEN \<Rightarrow> Inr (w\<lparr>sent := sent w @ [v]\<rparr>)
      | _ \<Rightarrow> Inr w)"


definition write_current :: "json \<Rightarrow> ws_hook \<Rightarrow> js_error + ws_hook" where
  "write_current v s =
     (case wsRef s of
        None \<Rightarrow> Inr s
      | Some i \<Rightarrow>
          if \<not> (i < length (sockets s) \<and> readyState (sockets s ! i) = OPEN) then Inr s
          else (case socket_send v (sockets s ! i) of
                  Inl err \<Rightarrow> Inl err
                | Inr w \<Rightarrow> Inr (s\<lparr>sockets := (sockets s)[i := w]\<rparr>)))"


definition joinRoom :: "string \<Rightarrow> string \<Rightarrow> ws_hook \<Rightarrow> js_error + ws_hook" where
  "joinRoom roomId playerName s =
     write_current (JObj [(''type'', JStr ''join''), (''roomId'', JStr roomId),
                          (''payload'', JObj [(''name'', JStr playerName)])]) s"

text \<open>\<open>ws.close()\<close>: a connecting or open socket starts closing; its close event comes
  later.\<close>

definition socket_close :: "WebSocket \<Rightarrow> WebSocket" where
  "socket_close w =
     (if readyState w = CONNECTING \<or> readyState w = OPEN then w\<lparr>readyState := CLOSING\<rparr> else w)"

text \<open>The cleanup function returned by the effect of the hook.\<close>

definition effect_cleanup :: "ws_hook \<Rightarrow> ws_hook" where
  "effect_cleanup s =
     (let s1 = (case reconnectTimeoutRef s of
                  None \<Rightarrow> s
                | Some h \<Rightarrow> if h = 0 then s else s\<lparr>pending := clearTimeout h (pending s)\<rparr>)
      in case wsRef s1 of
           None \<Rightarrow> s1
         | Some i \<Rightarrow>
             if i < length (sockets s1)
             then s1\<lparr>sockets := (sockets s1)[i := socket_close (sockets s1 ! i)]\<rparr>
             else s1)"

text \<open>The hook after its effect has run at mount.\<close>

definition mount :: ws_hook where
  "mount = connect ws_init"

subsection \<open>The events the hook receives\<close>

text \<open>
  After the mount the hook is driven by the events of its sockets and by its timeouts.
  A socket opens only while connecting, closes once, and delivers messages only while
  open; a timeout fires once, not before it is due, and then runs \<open>connect\<close>. Each event
  comes with the time at which it is handled. \<open>None\<close> means that the event cannot
  occur in the state.
\<close>

datatype event = Open nat | Close nat | Error nat | Message nat string | Timeout nat

definition set_readyState :: "nat \<Rightarrow> readyState \<Rightarrow> ws_hook \<Rightarrow> ws_hook" where
  "set_readyState i r s = s\<lparr>sockets := (sockets s)[i := (sockets s ! i)\<lparr>readyState := r\<rparr>]\<rparr>"

fun step :: "(string \<Rightarrow> json option) \<Rightarrow> nat \<times> event \<Rightarrow> ws_hook \<Rightarrow> ws_hook option" where
  "step parse (now, Open i) s =
     (if i < length (sockets s) \<and> readyState (sockets s ! i) = CONNECTING
      then Some (ws_onopen (set_readyState i OPEN s)) else None)"
| "step parse (now, Close i) s =
     (if i < length (sockets s) \<and> readyState (sockets s ! i) \<noteq> CLOSED
      then Some (ws_onclose now (set_readyState i CLOSED s)) else None)"
| "step parse (now, Error i) s =
     (if i < length (sockets s) \<and> readyState (sockets s ! i) \<noteq> CLOSED
      then Some (ws_onerror s) else None)"
| "step parse (now, Message i text) s =
     (if i < length (sockets s) \<and> readyState (sockets s ! i) = OPEN
      then (case ws_onmessage parse text s of Inl err \<Rightarrow> None | Inr s' \<Rightarrow> Some s') else None)"
| "step parse (now, Timeout h) s =
     (case map_of (pending s) h of
        None \<Rightarrow> None
      | Some due \<Rightarrow>
          if due \<le> now then Some (connect (s\<lparr>pending := clearTimeout h (pending s)\<rparr>))
          else None)"

fun run :: "(string \<Rightarrow> json option) \<Rightarrow> (nat \<times> event) list \<Rightarrow> ws_hook \<Rightarrow> ws_hook option" where
  "run parse [] s = Some s"
| "run parse (e # es) s = (case step parse e s of None \<Rightarrow> None | Some s' \<Rightarrow> run parse es s')"

text \<open>The sockets that can still deliver a close event.\<close>

definition live_sockets :: "ws_hook \<Rightarrow> nat" where
  "live_sockets s = length (filter (\<lambda>w. readyState w \<noteq> CLOSED) (sockets s))"


text \<open>
  What the invariant of the event-driven hook says: a socket that can still close and a
  pending timeout never coexist, handles are positive, and a pending timeout is the one
  whose handle is stored in \<open>reconnectTimeoutRef\<close>.
\<close>

definition ws_inv :: "ws_hook \<Rightarrow> bool" where
  "ws_inv s \<longleftrightarrow> live_sockets s + length (pending s) \<le> 1 \<and> 0 < next_handle s
     \<and> (pending s = [] \<or> (\<exists>h due. pending s = [(h, due)] \<and> reconnectTimeoutRef s = Some h \<and> 0 < h))"

text \<open>The kind of a decoded frame, \<open>data.type\<close>; \<open>None\<close> when it is \<open>undefined\<close> or
  cannot be read.\<close>

definition frame_type :: "json \<Rightarrow> json option" where
  "frame_type d = (case d of JObj fs \<Rightarrow> map_of fs ''type'' | _ \<Rightarrow> None)"

text \<open>A decoder for three example texts, used to instantiate \<open>JSON.parse\<close>.\<close>

definition parse_example :: "string \<Rightarrow> json option" where
  "parse_example raw =
     (if raw = ''chat frame'' then Some (JObj [(''type'', JStr ''chat''), (''state'', JNum 1)])
      else if raw = ''null'' then Some JNull
      else None)"


section \<open>Turn clock (TurnTimer)\<close>

text \<open>
  The component: its state \<open>timeLeft\<close>, the ref \<open>intervalRef\<close>, the intervals it has
  running in the window (by handle; handles are positive), the next fresh handle, and the
  calls of \<open>sounds.tick()\<close> it has made, each recorded with the value of \<open>newTime\<close>
  at the call.
\<close>

record TurnTimer =
  timeLeft :: int
  intervalRef :: "nat option"
  intervals :: "nat list"
  next_interval :: nat
  ticks :: "int list"

text \<open>The block \<open>if (intervalRef.current) { clearInterval(intervalRef.current);
  intervalRef.current = null; }\<close>, which the component contains three times.\<close>

definition clear_ref :: "TurnTimer \<Rightarrow> TurnTimer" where
  "clear_ref t =
     (case intervalRef t of
        None \<Rightarrow> t
      | Some h \<Rightarrow> if h = 0 then t
                  else t\<lparr>intervals := removeAll h (intervals t), intervalRef := None\<rparr>)"

text \<open>Truthiness of \<open>currentPlayer: string | null\<close>: \<open>null\<close> and the empty string are
  falsy.\<close>

definition truthy :: "string option \<Rightarrow> bool" where
  "truthy p = (case p of None \<Rightarrow> False | Some n \<Rightarrow> n \<noteq> [])"

text \<open>The body of the effect, run with the props of the current render.\<close>

definition timer_effect :: "bool \<Rightarrow> string option \<Rightarrow> int \<Rightarrow> TurnTimer \<Rightarrow> TurnTimer" where
  "timer_effect isActive player duration t =
     (let t1 = clear_ref t;
          t2 = t1\<lparr>timeLeft := duration\<rparr>
      in if \<not> isActive \<or> \<not> truthy player then t2
         else t2\<lparr>intervals := intervals t2 @ [next_interval t2],
                 intervalRef := Some (next_interval t2),
                 next_interval := next_interval t2 + 1\<rparr>)"

text \<open>The cleanup function the effect returns when it has started an interval.\<close>

definition timer_cleanup :: "TurnTimer \<Rightarrow> TurnTimer" where
  "timer_cleanup t = clear_ref t"

text \<open>One run of the interval callback, that is, of the updater it passes to
  \<open>setTimeLeft\<close>.\<close>

definition interval_callback :: "TurnTimer \<Rightarrow> TurnTimer" where
  "interval_callback t =
     (let newTime = timeLeft t - 1;
          t1 = (if newTime \<le> 5 \<and> newTime > 0 then t\<lparr>ticks := ticks t @ [newTime]\<rparr> else t)
      in if newTime \<le> 0 then (clear_ref t1)\<lparr>timeLeft := 0\<rparr>
         else t1\<lparr>timeLeft := newTime\<rparr>)"

text \<open>What the component renders: nothing when inactive, else the seconds shown and
  whether they are shown as low.\<close>

definition TurnTimer_render :: "bool \<Rightarrow> string option \<Rightarrow> TurnTimer \<Rightarrow> (int \<times> bool) option" where
  "TurnTimer_render isActive player t =
     (if \<not> isActive \<or> \<not> truthy player then None else Some (timeLeft t, timeLeft t \<le> 5))"

subsection \<open>The life of a mounted turn clock\<close>

text \<open>
  A mounted clock is its state together with the dependencies \<open>(isActive,
  currentPlayer)\<close> of the last run of its effect; the duration is fixed for the clock.
  At mount \<open>timeLeft\<close> starts at the duration and the effect runs. A render with changed
  dependencies runs the cleanup, if the last run of the effect returned one, and then
  the effect; a render with the same dependencies runs neither. An interval fires only
  while it is running.
\<close>

type_synonym clock = "(bool \<times> string option) \<times> TurnTimer"

datatype clock_event = Render bool "string option" | IntervalFire nat

definition mount_clock :: "bool \<Rightarrow> string option \<Rightarrow> int \<Rightarrow> clock" where
  "mount_clock isActive player duration =
     ((isActive, player),
      timer_effect isActive player duration
        \<lparr>timeLeft = duration, intervalRef = None, intervals = [], next_interval = 1,
         ticks = []\<rparr>)"

fun clock_step :: "int \<Rightarrow> clock_event \<Rightarrow> clock \<Rightarrow> clock option" where
  "clock_step duration (Render isActive player) (deps, t) =
     (if (isActive, player) = deps then Some (deps, t)
      else Some ((isActive, player),
                 timer_effect isActive player duration
                   (if fst deps \<and> truthy (snd deps) then timer_cleanup t else t)))"
| "clock_step duration (IntervalFire h) (deps, t) =
     (if h \<in> set (intervals t) then Some (deps, interval_callback t) else None)"

fun clock_run :: "int \<Rightarrow> clock_event list \<Rightarrow> clock \<Rightarrow> clock option" where
  "clock_run duration [] c = Some c"
| "clock_run duration (e # es) c =
     (case clock_step duration e c of None \<Rightarrow> None | Some c' \<Rightarrow> clock_run duration es c')"

text \<open>
  The invariant of a mounted clock of duration \<open>d\<close>: the countdown is within
  \<open>[0, d]\<close>; either no interval runs and the ref is empty, or exactly the interval of
  the ref runs, the dependencies are active and the countdown has not expired.
\<close>

definition clock_inv :: "int \<Rightarrow> clock \<Rightarrow> bool" where
  "clock_inv d c \<longleftrightarrow>
     (case c of (deps, t) \<Rightarrow>
        0 \<le> timeLeft t \<and> timeLeft t \<le> d \<and> 0 < next_interval t
        \<and> ((intervals t = [] \<and> intervalRef t = None)
           \<or> (\<exists>h. intervals t = [h] \<and> intervalRef t = Some h \<and> 0 < h
                  \<and> fst deps \<and> truthy (snd deps) \<and> (0 < timeLeft t \<or> d = 0))))"

section \<open>Active player (App)\<close>

text \<open>
  \<open>players[turnIdx]\<close>: reading an array outside its range gives \<open>undefined\<close>. In the
  derived values below \<open>None\<close> stands for \<open>null\<close> and for \<open>undefined\<close>; the argument
  is the snapshot published by the hook, \<open>None\<close> while there is none.
\<close>

definition players_at :: "Player list \<Rightarrow> int \<Rightarrow> Player option" where
  "players_at ps i = (if 0 \<le> i \<and> i < int (length ps) then Some (ps ! nat i) else None)"

text \<open>\<open>state?.turnIdx >= 0 ? state?.players[state.turnIdx] : null\<close>.\<close>

definition currentPlayer :: "GameState option \<Rightarrow> Player option" where
  "currentPlayer st =
     (case st of
        None \<Rightarrow> None
      | Some g \<Rightarrow> if turnIdx g \<ge> 0 then players_at (players g) (turnIdx g) else None)"

text \<open>\<open>state?.phase === "PLAYER" && currentPlayer?.name === name\<close>.\<close>

definition isMyTurn :: "GameState option \<Rightarrow> string \<Rightarrow> bool" where
  "isMyTurn st nm =
     (case st of
        None \<Rightarrow> False
      | Some g \<Rightarrow> phase g = PLAYER
          \<and> (case currentPlayer st of None \<Rightarrow> False | Some p \<Rightarrow> name p = nm))"

text \<open>The props given to the turn clock: \<open>isActive={state?.phase === "PLAYER"}\<close> and
  \<open>currentPlayer={currentPlayer?.name || null}\<close>.\<close>

definition timer_isActive :: "GameState option \<Rightarrow> bool" where
  "timer_isActive st = (case st of None \<Rightarrow> False | Some g \<Rightarrow> phase g = PLAYER)"

definition timer_player :: "GameState option \<Rightarrow> string option" where
  "timer_player st =
     (case currentPlayer st of
        None \<Rightarrow> None
      | Some p \<Rightarrow> if name p = [] then None else Some (name p))"


section \<open>The mute flag in the app\<close>

text \<open>
  \<open>muted\<close> is a state of each instance of \<open>useSounds\<close>, \<open>false\<close> at first, and the
  object \<open>sounds\<close> of a render closes over the value the state has in that render.
  \<open>CardComponent\<close> calls \<open>useSounds()\<close> itself and takes only \<open>sounds\<close> from it, so
  that the state \<open>muted\<close> of its instance is never set. Its effect plays the card cue
  once, when the card is to sound and is not hidden.
\<close>

record CardComponent =
  card_muted :: bool
  hasPlayedRef :: bool

definition CardComponent_mount :: CardComponent where
  "CardComponent_mount = \<lparr>card_muted = False, hasPlayedRef = False\<rparr>"

definition CardComponent_effect ::
    "bool \<Rightarrow> bool \<Rightarrow> CardComponent \<Rightarrow> audio_env \<Rightarrow> CardComponent \<times> audio_env" where
  "CardComponent_effect playSound hidden c env =
     (if playSound \<and> \<not> hidden \<and> \<not> hasPlayedRef c
      then (c\<lparr>hasPlayedRef := True\<rparr>, sounds (card_muted c) CardDeal env)
      else (c, env))"

text \<open>
  The sound side of \<open>App\<close>: the state \<open>muted\<close> of its own instance of \<open>useSounds\<close> (the
  one the mute button toggles), the audio environment, and the value of \<open>muted\<close> inside
  the object \<open>sounds\<close> that the running interval of the turn clock closes over.
\<close>

record App_sound =
  app_muted :: bool
  audio :: audio_env
  interval_sounds_muted :: bool

definition App_sound_mount :: "audio_env \<Rightarrow> App_sound" where
  "App_sound_mount env = \<lparr>app_muted = False, audio = env, interval_sounds_muted = False\<rparr>"

text \<open>The mute button: \<open>setMuted(!muted)\<close>. The turn clock is rendered again with the
  new \<open>sounds\<close>, but \<open>sounds\<close> is not a dependency of its effect, which does not run
  again: the interval keeps the callback it has.\<close>

definition toggle_muted :: "App_sound \<Rightarrow> App_sound" where
  "toggle_muted a = a\<lparr>app_muted := \<not> app_muted a\<rparr>"

text \<open>A run of the effect of the turn clock that starts an interval: its callback closes
  over the \<open>sounds\<close> of the current render of \<open>App\<close>.\<close>

definition interval_started :: "App_sound \<Rightarrow> App_sound" where
  "interval_started a = a\<lparr>interval_sounds_muted := app_muted a\<rparr>"

text \<open>What a run of the interval callback does to the audio environment, for a clock in
  state \<open>t\<close>: the call \<open>sounds.tick()\<close> on the object it closes over.\<close>

definition interval_fired :: "TurnTimer \<Rightarrow> App_sound \<Rightarrow> App_sound" where
  "interval_fired t a =
     (let newTime = timeLeft t - 1
      in if newTime \<le> 5 \<and> newTime > 0
         then a\<lparr>audio := sounds (interval_sounds_muted a) Tick (audio a)\<rparr>
         else a)"

text \<open>A card appears in a hand: \<open>PlayerSpot\<close> and the dealer's row render each card as
  \<open><CardComponent ... playSound={true} />\<close>, without passing \<open>sounds\<close>; the new
  component mounts and its effect runs.\<close>

definition card_rendered :: "bool \<Rightarrow> App_sound \<Rightarrow> App_sound" where
  "card_rendered hidden a =
     a\<lparr>audio := snd (CardComponent_effect True hidden CardComponent_mount (audio a))\<rparr>"

text \<open>A cue played through the \<open>sounds\<close> of the current render of \<open>App\<close>: by its own
  handlers (\<open>handleBet\<close>, \<open>handleHit\<close>, \<open>handleDouble\<close>) and by the effects of
  \<open>PlayerSpot\<close> and \<open>ShuffleAnimation\<close>, which receive \<open>sounds\<close> as a prop.\<close>

definition app_cue :: "cue \<Rightarrow> App_sound \<Rightarrow> App_sound" where
  "app_cue c a = a\<lparr>audio := sounds (app_muted a) c (audio a)\<rparr>"

text \<open>An available backend on which nothing has happened, and the app muted by its
  button after the turn clock has started its interval.\<close>

definition silent_env :: audio_env where
  "silent_env = \<lparr>available = True, calls = [], timeouts = [], console = []\<rparr>"

definition muted_app :: App_sound where
  "muted_app = toggle_muted (interval_started (App_sound_mount silent_env))"

text \<open>An example player.\<close>

definition ann :: Player where
  "ann = \<lparr>player_id = ''p1'', name = ''Ann'', stack = 100, bet = 10, insuranceBet = None,
     ready = True, cards = [], status = ''playing'', result = None\<rparr>"

section \<open>Properties of the hand value\<close>

lemma add_rank_eq:
  "add_rank r (t, a) = (t + hard_points r + (if r = Ace then 10 else 0), a + (if r = Ace then 1 else 0))"
  by (cases r) simp_all

lemma tally_eq:
  "tally cs (t, a) = (t + hard_total cs + 10 * int (ace_count cs), a + ace_count cs)"
proof (induction cs arbitrary: t a)
  case Nil
  show ?case by (simp add: hard_total_def ace_count_def)
next
  case (Cons c cs)
  show ?case
    by (simp add: add_rank_eq Cons.IH) (simp add: hard_total_def ace_count_def)
qed

lemma downgrade_inv:
  "downgrade (t, a) = (t', a') \<Longrightarrow>
     t' - 10 * int a' = t - 10 * int a \<and> a' \<le> a \<and> (t' \<le> 21 \<or> a' = 0)"
proof (induction "(t, a)" arbitrary: t a rule: downgrade.induct)
  case (1 tot aces)
  show ?case
  proof (cases "tot > 21 \<and> aces > 0")
    case True
    with "1.prems" have "downgrade (tot - 10, aces - 1) = (t', a')"
      by (simp add: downgrade.simps [of tot aces])
    from "1.hyps" [OF True this] True show ?thesis
      by (auto simp: of_nat_diff)
  next
    case False
    with "1.prems" show ?thesis
      by (auto simp: downgrade.simps [of tot aces])
  qed
qed

lemma final_tally_inv:
  assumes "final_tally cs = (t, a)"
  shows "t = hard_total cs + 10 * int a \<and> a \<le> ace_count cs \<and> (t \<le> 21 \<or> a = 0)"
proof -
  from assms have "downgrade (hard_total cs + 10 * int (ace_count cs), ace_count cs) = (t, a)"
    by (simp add: final_tally_def tally_eq)
  from downgrade_inv [OF this] show ?thesis
    by auto
qed

lemma hard_total_mset:
  "hard_total cs = sum_mset (image_mset hard_points (mset (map rank cs)))"
  by (induction cs) (simp_all add: hard_total_def)

lemma ace_count_mset: "ace_count cs = count (mset (map rank cs)) Ace"
  by (induction cs) (simp_all add: ace_count_def)

lemma final_tally_mset:
  "final_tally cs = downgrade (sum_mset (image_mset hard_points (mset (map rank cs)))
       + 10 * int (count (mset (map rank cs)) Ace), count (mset (map rank cs)) Ace)"
  by (simp add: final_tally_def tally_eq hard_total_mset ace_count_mset)

text \<open>
  C6. The value returned is never further reducible: it is the hard total (every ace as
  1) plus 10 for each of the \<open>soft_aces\<close> aces still counted as 11 at the return, that
  counter does not exceed the number of aces in the hand, and either the value is at
  most 21 or no ace is still counted as 11.
\<close>

theorem calculateValue_not_reducible:
  "calculateValue cs = hard_total cs + 10 * int (soft_aces cs)
   \<and> soft_aces cs \<le> ace_count cs
   \<and> (calculateValue cs \<le> 21 \<or> soft_aces cs = 0)"
proof -
  obtain t a where ta: "final_tally cs = (t, a)"
    by (cases "final_tally cs")
  from final_tally_inv [OF ta] ta show ?thesis
    by (auto simp: calculateValue_def soft_aces_def)
qed

text \<open>
  C7. The reference values, whatever the identities and suits of the cards:
  \<open>[A, K]\<close> gives 21, \<open>[A, A]\<close> gives 12, \<open>[A, A, 9]\<close> gives 21, \<open>[K, Q, 2]\<close> gives 22
  and the empty hand gives 0. A single card counts 11 if it is an ace, 10 if it is
  \<open>J\<close>, \<open>Q\<close> or \<open>K\<close>, and its face value otherwise.
\<close>

theorem calculateValue_examples:
  "calculateValue [\<lparr>card_id = i1, suit = s1, rank = Ace\<rparr>,
                   \<lparr>card_id = i2, suit = s2, rank = King\<rparr>] = 21
   \<and> calculateValue [\<lparr>card_id = i1, suit = s1, rank = Ace\<rparr>,
                     \<lparr>card_id = i2, suit = s2, rank = Ace\<rparr>] = 12
   \<and> calculateValue [\<lparr>card_id = i1, suit = s1, rank = Ace\<rparr>,
                     \<lparr>card_id = i2, suit = s2, rank = Ace\<rparr>,
                     \<lparr>card_id = i3, suit = s3, rank = N9\<rparr>] = 21
   \<and> calculateValue [\<lparr>card_id = i1, suit = s1, rank = King\<rparr>,
                     \<lparr>card_id = i2, suit = s2, rank = Queen\<rparr>,
                     \<lparr>card_id = i3, suit = s3, rank = N2\<rparr>] = 22
   \<and> calculateValue [] = 0
   \<and> calculateValue [\<lparr>card_id = i1, suit = s1, rank = r\<rparr>]
       = (if r = Ace then 11 else hard_points r)"
  by (cases r) (simp_all add: calculateValue_def final_tally_def downgrade.simps)

text \<open>
  C8. The value depends only on the multiset of ranks of the hand: two hands with the
  same ranks, in any order and with any suits and identities, have the same value. In
  particular every permutation of a hand has the value of the hand. (The evaluator is a
  function of the hand alone, so repeated evaluation gives the same value.)
\<close>

theorem calculateValue_order_independent:
  "mset (map rank h) = mset (map rank h') \<Longrightarrow> calculateValue h = calculateValue h'"
  by (simp add: calculateValue_def final_tally_mset)

theorem calculateValue_order_independent_witness:
  "mset (map rank [\<lparr>card_id = ''a'', suit = Spades, rank = Ace\<rparr>,
                   \<lparr>card_id = ''b'', suit = Hearts, rank = King\<rparr>,
                   \<lparr>card_id = ''c'', suit = Clubs, rank = N5\<rparr>])
     = mset (map rank [\<lparr>card_id = ''x'', suit = Diamonds, rank = N5\<rparr>,
                       \<lparr>card_id = ''y'', suit = Clubs, rank = Ace\<rparr>,
                       \<lparr>card_id = ''z'', suit = Spades, rank = King\<rparr>])
   \<and> calculateValue [\<lparr>card_id = ''a'', suit = Spades, rank = Ace\<rparr>,
                     \<lparr>card_id = ''b'', suit = Hearts, rank = King\<rparr>,
                     \<lparr>card_id = ''c'', suit = Clubs, rank = N5\<rparr>]
     = calculateValue [\<lparr>card_id = ''x'', suit = Diamonds, rank = N5\<rparr>,
                       \<lparr>card_id = ''y'', suit = Clubs, rank = Ace\<rparr>,
                       \<lparr>card_id = ''z'', suit = Spades, rank = King\<rparr>]
   \<and> calculateValue [\<lparr>card_id = ''x'', suit = Diamonds, rank = N5\<rparr>,
                     \<lparr>card_id = ''y'', suit = Clubs, rank = Ace\<rparr>,
                     \<lparr>card_id = ''z'', suit = Spades, rank = King\<rparr>] = 16"
proof -
  have m: "mset (map rank [\<lparr>card_id = ''a'', suit = Spades, rank = Ace\<rparr>,
                   \<lparr>card_id = ''b'', suit = Hearts, rank = King\<rparr>,
                   \<lparr>card_id = ''c'', suit = Clubs, rank = N5\<rparr>])
     = mset (map rank [\<lparr>card_id = ''x'', suit = Diamonds, rank = N5\<rparr>,
                       \<lparr>card_id = ''y'', suit = Clubs, rank = Ace\<rparr>,
                       \<lparr>card_id = ''z'', suit = Spades, rank = King\<rparr>])"
    by simp
  have v: "calculateValue [\<lparr>card_id = ''x'', suit = Diamonds, rank = N5\<rparr>,
                     \<lparr>card_id = ''y'', suit = Clubs, rank = Ace\<rparr>,
                     \<lparr>card_id = ''z'', suit = Spades, rank = King\<rparr>] = 16"
    by (simp add: calculateValue_def final_tally_def downgrade.simps)
  from m v calculateValue_order_independent [OF m] show ?thesis
    by blast
qed

section \<open>Properties of the sound cues\<close>

lemma melody_from_muted: "melody_from True i ns env = env"
  by (induction ns arbitrary: i) (simp_all add: playBeep_def)

text \<open>Without \<open>muted\<close> the operations do reach the backend: the tick cue schedules its
  tone, and the card cue, on an available backend, makes fifteen calls.\<close>

lemma sounds_unmuted:
  "timeouts (sounds False Tick env) = timeouts env @ [(0, BeepTone 900 0.05)]"
  "available env \<Longrightarrow> length (calls (sounds False CardDeal env)) = length (calls env) + 15"
  by (simp_all add: playBeep_def setTimeout_audio_def playCardSlide_def backend_def)

text \<open>
  The operations of an object \<open>sounds\<close> whose own \<open>muted\<close> is set return before any
  work: the backend receives no call, no callback is scheduled and nothing is logged.
\<close>

lemma sounds_muted_noop: "sounds True c env = env"
  by (cases c)
    (simp_all add: playCardSlide_def playChipStack_def playMelody_def melody_from_muted
      playBeep_def playShuffle_def)

lemma app_cue_muted: "app_muted a \<Longrightarrow> app_cue c a = a"
  by (simp add: app_cue_def sounds_muted_noop)

text \<open>
  C9 fails of the program. In the app muted by its button, on an available backend on
  which nothing has happened, the flag is set; yet a card that appears makes the fifteen
  backend calls of the card cue, because its component asks its own, never muted,
  instance of the hook; and a firing of the turn clock's interval at 6 seconds left
  schedules the tick tone, which then makes nine backend calls, because the interval
  started before the muting keeps the object \<open>sounds\<close> of that render.
\<close>

theorem muted_app_still_sounds:
  "app_muted muted_app
   \<and> calls (audio muted_app) = []
   \<and> timeouts (audio muted_app) = []
   \<and> calls (audio (card_rendered False muted_app))
       = [NewAudioContext, CreateOscillator, CreateGain, CreateBiquadFilter,
          Connect Osc Filter, Connect Filter Gain, Connect Gain Destination,
          FilterType ''lowpass'', FilterFrequency 2000,
          OscFrequencyAt 150 0, OscFrequencyRampTo 100 0.15,
          GainAt 0.2 0, GainRampTo 0.01 0.15, Start 0, Stop 0.15]
   \<and> timeouts (audio (interval_fired
           \<lparr>timeLeft = 6, intervalRef = Some 1, intervals = [1], next_interval = 2, ticks = []\<rparr>
           muted_app))
       = [(0, BeepTone 900 0.05)]
   \<and> calls (run_deferred (BeepTone 900 0.05) 0 0 (audio muted_app))
       = [NewAudioContext, CreateOscillator, CreateGain, Connect Osc Gain,
          Connect Gain Destination, OscFrequency 900, GainValue 0.15, Start 0, Stop 0.05]"
proof -
  have a: "muted_app = \<lparr>app_muted = True, audio = silent_env, interval_sounds_muted = False\<rparr>"
    by (simp add: muted_app_def toggle_muted_def interval_started_def App_sound_mount_def)
  have card: "calls (audio (card_rendered False muted_app))
       = [NewAudioContext, CreateOscillator, CreateGain, CreateBiquadFilter,
          Connect Osc Filter, Connect Filter Gain, Connect Gain Destination,
          FilterType ''lowpass'', FilterFrequency 2000,
          OscFrequencyAt 150 0, OscFrequencyRampTo 100 0.15,
          GainAt 0.2 0, GainRampTo 0.01 0.15, Start 0, Stop 0.15]"
    unfolding a
    by (simp add: card_rendered_def CardComponent_effect_def CardComponent_mount_def
        playCardSlide_def backend_def silent_env_def)
  have tick: "timeouts (audio (interval_fired
           \<lparr>timeLeft = 6, intervalRef = Some 1, intervals = [1], next_interval = 2, ticks = []\<rparr>
           muted_app))
       = [(0, BeepTone 900 0.05)]"
    unfolding a
    by (simp add: interval_fired_def playBeep_def setTimeout_audio_def silent_env_def)
  have tone: "calls (run_deferred (BeepTone 900 0.05) 0 0 (audio muted_app))
       = [NewAudioContext, CreateOscillator, CreateGain, Connect Osc Gain,
          Connect Gain Destination, OscFrequency 900, GainValue 0.15, Start 0, Stop 0.05]"
    unfolding a
    by (simp add: beep_tone_def backend_def silent_env_def)
  have flag: "app_muted muted_app" "calls (audio muted_app) = []" "timeouts (audio muted_app) = []"
    unfolding a by (simp_all add: silent_env_def)
  from flag card tick tone show ?thesis
    by (intro conjI)
qed

section \<open>Properties of the connection hook\<close>

lemma filter_update_length:
  "i < length xs \<Longrightarrow>
   length (filter P (xs[i := y])) + (if P (xs ! i) then 1 else 0)
     = length (filter P xs) + (if P y then 1 else 0)"
proof -
  assume i: "i < length xs"
  have a: "xs[i := y] = take i xs @ y # drop (Suc i) xs"
    using i by (rule upd_conv_take_nth_drop)
  have b: "filter P xs = filter P (take i xs @ xs ! i # drop (Suc i) xs)"
    using i by (simp flip: id_take_nth_drop)
  show ?thesis
    unfolding a b by simp
qed

lemma live_set_readyState:
  "i < length (sockets s) \<Longrightarrow>
   live_sockets (set_readyState i r s) + (if readyState (sockets s ! i) \<noteq> CLOSED then 1 else 0)
     = live_sockets s + (if r \<noteq> CLOSED then 1 else 0)"
  using filter_update_length [of i "sockets s" "\<lambda>w. readyState w \<noteq> CLOSED" "(sockets s ! i)\<lparr>readyState := r\<rparr>"]
  by (simp add: live_sockets_def set_readyState_def)

lemma clearTimeout_length: "length (clearTimeout h ts) \<le> length ts"
  by (simp add: clearTimeout_def)

lemma clearTimeout_shrinks:
  "map_of ts h = Some due \<Longrightarrow> length (clearTimeout h ts) < length ts"
  by (induction ts) (auto simp: clearTimeout_def le_imp_less_Suc split: if_splits)

lemma live_connect:
  "live_sockets (connect s) = (if is_open s then live_sockets s else live_sockets s + 1)"
  by (simp add: connect_def live_sockets_def)


lemma ws_inv_mount: "ws_inv mount"
  by (simp add: ws_inv_def mount_def connect_def ws_init_def is_open_def live_sockets_def)

lemma live_pos: "i < length (sockets s) \<Longrightarrow> readyState (sockets s ! i) \<noteq> CLOSED \<Longrightarrow> 0 < live_sockets s"
  unfolding live_sockets_def length_greater_0_conv filter_empty_conv
  using nth_mem by blast

lemma ws_inv_open:
  assumes inv: "ws_inv s" and i: "i < length (sockets s)" "readyState (sockets s ! i) = CONNECTING"
  shows "ws_inv (ws_onopen (set_readyState i OPEN s))" "pending (ws_onopen (set_readyState i OPEN s)) = []"
proof -
  let ?s1 = "set_readyState i OPEN s"
  from live_set_readyState [OF i(1), of OPEN] i(2)
  have l: "live_sockets ?s1 = live_sockets s" by simp
  from live_pos [OF i(1)] i(2) have "0 < live_sockets s" by simp
  with inv have p: "pending s = []" by (auto simp: ws_inv_def)
  have f: "pending ?s1 = pending s" "next_handle ?s1 = next_handle s"
    by (simp_all add: set_readyState_def)
  have o: "pending (ws_onopen ?s1) = []" "next_handle (ws_onopen ?s1) = next_handle s"
     "live_sockets (ws_onopen ?s1) = live_sockets ?s1"
    using p f by (simp_all add: ws_onopen_def Let_def clearTimeout_def live_sockets_def split: option.split)
  show "pending (ws_onopen ?s1) = []" by (rule o)
  show "ws_inv (ws_onopen ?s1)"
    using inv o l p by (simp add: ws_inv_def)
qed

lemma ws_inv_close:
  assumes inv: "ws_inv s" and i: "i < length (sockets s)" "readyState (sockets s ! i) \<noteq> CLOSED"
  shows "ws_inv (ws_onclose now (set_readyState i CLOSED s))"
    "pending (ws_onclose now (set_readyState i CLOSED s)) = [(next_handle s, now + 2000)]"
proof -
  let ?s1 = "set_readyState i CLOSED s"
  from live_set_readyState [OF i(1), of CLOSED] i(2)
  have l: "live_sockets ?s1 + 1 = live_sockets s" by simp
  with inv have p: "pending s = []" "live_sockets ?s1 = 0" by (auto simp: ws_inv_def)
  have f: "pending ?s1 = pending s" "next_handle ?s1 = next_handle s"
    by (simp_all add: set_readyState_def)
  have c: "pending (ws_onclose now ?s1) = [(next_handle s, now + 2000)]"
     "next_handle (ws_onclose now ?s1) = next_handle s + 1"
     "reconnectTimeoutRef (ws_onclose now ?s1) = Some (next_handle s)"
     "live_sockets (ws_onclose now ?s1) = live_sockets ?s1"
    using p f by (simp_all add: ws_onclose_def live_sockets_def)
  show "pending (ws_onclose now ?s1) = [(next_handle s, now + 2000)]" by (rule c)
  show "ws_inv (ws_onclose now ?s1)"
    using inv c p by (simp add: ws_inv_def)
qed

lemma ws_inv_timeout:
  assumes inv: "ws_inv s" and d: "map_of (pending s) h = Some due"
  shows "ws_inv (connect (s\<lparr>pending := clearTimeout h (pending s)\<rparr>))"
proof -
  let ?s1 = "s\<lparr>pending := clearTimeout h (pending s)\<rparr>"
  from clearTimeout_shrinks [OF d] inv
  have e: "clearTimeout h (pending s) = []" "live_sockets s = 0"
    by (auto simp: ws_inv_def)
  have "live_sockets ?s1 = 0" "pending ?s1 = []" "next_handle ?s1 = next_handle s"
    using e by (simp_all add: live_sockets_def)
  moreover have "pending (connect ?s1) = pending ?s1" "next_handle (connect ?s1) = next_handle ?s1"
    by (simp_all add: connect_def)
  ultimately show ?thesis
    using inv by (simp add: ws_inv_def live_connect)
qed

lemma ws_inv_message:
  assumes inv: "ws_inv s" and m: "ws_onmessage parse text s = Inr s'"
  shows "ws_inv s'"
proof -
  from m have "sockets s' = sockets s \<and> pending s' = pending s \<and> next_handle s' = next_handle s
      \<and> reconnectTimeoutRef s' = reconnectTimeoutRef s"
    by (auto simp: ws_onmessage_def onmessage_try_def split: option.splits json.splits if_splits)
  with inv show ?thesis by (simp add: ws_inv_def live_sockets_def)
qed

lemma ws_inv_step:
  assumes "ws_inv s" and "step parse e s = Some s'"
  shows "ws_inv s'"
proof -
  obtain now ev where e: "e = (now, ev)" by (cases e)
  show ?thesis
  proof (cases ev)
    case (Open i)
    with assms e show ?thesis
      by (auto split: if_splits intro: ws_inv_open(1))
  next
    case (Close i)
    with assms e show ?thesis
      by (auto split: if_splits intro: ws_inv_close(1))
  next
    case (Error i)
    with assms e show ?thesis
      by (auto simp: ws_inv_def ws_onerror_def live_sockets_def split: if_splits)
  next
    case (Message i raw)
    with assms e show ?thesis
      by (auto split: if_splits sum.splits intro: ws_inv_message)
  next
    case (Timeout h)
    with assms e show ?thesis
      by (auto split: if_splits option.splits intro: ws_inv_timeout)
  qed
qed

lemma ws_inv_run: "ws_inv s \<Longrightarrow> run parse es s = Some s' \<Longrightarrow> ws_inv s'"
proof (induction es arbitrary: s)
  case Nil
  then show ?case by simp
next
  case (Cons e es)
  then show ?case
    by (auto split: option.splits dest: ws_inv_step)
qed

lemma ws_reachable_inv: "run parse es mount = Some s \<Longrightarrow> ws_inv s"
  using ws_inv_mount by (rule ws_inv_run)

text \<open>
  C1, as the code has it. A close event handled at time \<open>now\<close> always sets one new
  timeout, due at \<open>now + 2000\<close>, and stores its handle; the handler does not look
  whether a timeout is already pending. On open, the timeout whose handle is stored is
  cancelled and the handle forgotten. In every run that starts at the mount and
  consists of events of the sockets and timeouts of the hook, at most one timeout is
  pending; a close event finds none pending and leaves exactly one, due 2000 ms after
  it; and after an open event none is pending.
\<close>

theorem reconnect_policy:
  "pending (ws_onclose now s) = pending s @ [(next_handle s, now + 2000)]
   \<and> reconnectTimeoutRef (ws_onclose now s) = Some (next_handle s)
   \<and> (reconnectTimeoutRef s = Some h \<and> 0 < h \<longrightarrow>
        pending (ws_onopen s) = clearTimeout h (pending s)
        \<and> reconnectTimeoutRef (ws_onopen s) = None)
   \<and> (run parse es mount = Some s' \<longrightarrow>
        length (pending s') \<le> 1
        \<and> (\<forall>t i s''. step parse (t, Close i) s' = Some s'' \<longrightarrow>
              pending s' = [] \<and> pending s'' = [(next_handle s', t + 2000)])
        \<and> (\<forall>t i s''. step parse (t, Open i) s' = Some s'' \<longrightarrow> pending s'' = []))"
proof (intro conjI impI allI)
  show "pending (ws_onclose now s) = pending s @ [(next_handle s, now + 2000)]"
    by (simp add: ws_onclose_def)
  show "reconnectTimeoutRef (ws_onclose now s) = Some (next_handle s)"
    by (simp add: ws_onclose_def)
next
  assume "reconnectTimeoutRef s = Some h \<and> 0 < h"
  then show "pending (ws_onopen s) = clearTimeout h (pending s)"
    and "reconnectTimeoutRef (ws_onopen s) = None"
    by (simp_all add: ws_onopen_def)
next
  assume "run parse es mount = Some s'"
  then have inv: "ws_inv s'" by (rule ws_reachable_inv)
  then show "length (pending s') \<le> 1" by (simp add: ws_inv_def)
  {
    fix t i s''
    assume c: "step parse (t, Close i) s' = Some s''"
    then have i: "i < length (sockets s')" "readyState (sockets s' ! i) \<noteq> CLOSED"
      and s'': "s'' = ws_onclose t (set_readyState i CLOSED s')"
      by (auto split: if_splits)
    from live_pos [OF i] inv show "pending s' = []"
      by (auto simp: ws_inv_def)
    from ws_inv_close(2) [OF inv i] show "pending s'' = [(next_handle s', t + 2000)]"
      by (simp add: s'')
  }
  {
    fix t i s''
    assume "step parse (t, Open i) s' = Some s''"
    then have i: "i < length (sockets s')" "readyState (sockets s' ! i) = CONNECTING"
      and s'': "s'' = ws_onopen (set_readyState i OPEN s')"
      by (auto split: if_splits)
    from ws_inv_open(2) [OF inv i] show "pending s'' = []"
      by (simp add: s'')
  }
qed

theorem reconnect_policy_witness:
  "pending (ws_onclose 7 mount) = [(1, 2007)]
   \<and> reconnectTimeoutRef (ws_onclose 7 mount) = Some 1 \<and> (0::nat) < 1
   \<and> pending (ws_onopen (ws_onclose 7 mount)) = []
   \<and> reconnectTimeoutRef (ws_onopen (ws_onclose 7 mount)) = None
   \<and> (\<exists>s'. run Map.empty [(0, Close 0), (2000, Timeout 1), (2005, Open 1)] mount = Some s'
         \<and> length (pending s') \<le> 1
         \<and> (\<exists>s''. step Map.empty (9000, Close 1) s' = Some s''
               \<and> pending s' = [] \<and> pending s'' = [(2, 11000)]))
   \<and> (\<exists>s' s''. run Map.empty [(0, Close 0), (2000, Timeout 1)] mount = Some s'
         \<and> step Map.empty (2005, Open 1) s' = Some s'' \<and> pending s'' = [])"
proof -
  let ?P = "Map.empty :: string \<Rightarrow> json option"
  let ?A = "\<lparr>sockets = [\<lparr>readyState = CLOSED, sent = []\<rparr>, \<lparr>readyState = OPEN, sent = []\<rparr>],
       wsRef = Some 1, reconnectTimeoutRef = None, pending = [], next_handle = 2,
       connected = True, state = Some JNull, reconnecting = False, errors_logged = []\<rparr>"
  let ?B = "\<lparr>sockets = [\<lparr>readyState = CLOSED, sent = []\<rparr>, \<lparr>readyState = CONNECTING, sent = []\<rparr>],
       wsRef = Some 1, reconnectTimeoutRef = Some 1, pending = [], next_handle = 2,
       connected = False, state = Some JNull, reconnecting = True, errors_logged = []\<rparr>"
  have rA: "run ?P [(0, Close 0), (2000, Timeout 1), (2005, Open 1)] mount = Some ?A"
    by (simp add: mount_def ws_init_def connect_def is_open_def
        set_readyState_def ws_onclose_def ws_onopen_def clearTimeout_def)
  have rB: "run ?P [(0, Close 0), (2000, Timeout 1)] mount = Some ?B"
    by (simp add: mount_def ws_init_def connect_def is_open_def
        set_readyState_def ws_onclose_def ws_onopen_def clearTimeout_def)
  have cA: "step ?P (9000, Close 1) ?A = Some (ws_onclose 9000 (set_readyState 1 CLOSED ?A))"
    by simp
  have oB: "step ?P (2005, Open 1) ?B = Some (ws_onopen (set_readyState 1 OPEN ?B))"
    by simp
  have h: "reconnectTimeoutRef (ws_onclose 7 mount) = Some 1 \<and> (0::nat) < 1"
    by (simp add: ws_onclose_def mount_def connect_def ws_init_def is_open_def)
  have m: "pending mount = []" "next_handle mount = 1"
    by (simp_all add: mount_def connect_def ws_init_def is_open_def)
  note t1 = reconnect_policy [where now = 7 and s = mount and parse = ?P
      and es = "[(0, Close 0), (2000, Timeout 1), (2005, Open 1)]" and s' = ?A]
  note t2 = reconnect_policy [where s = "ws_onclose 7 mount" and h = 1 and parse = ?P
      and es = "[(0, Close 0), (2000, Timeout 1)]" and s' = ?B]
  from t1 have c1: "pending (ws_onclose 7 mount) = [(1, 2007)]"
    by (simp add: m)
  from t2 h have c3: "pending (ws_onopen (ws_onclose 7 mount)) = []"
     "reconnectTimeoutRef (ws_onopen (ws_onclose 7 mount)) = None"
    by (simp_all add: c1 clearTimeout_def)
  from t1 rA have c4: "length (pending ?A) \<le> 1"
     and c5: "\<And>t i s''. step ?P (t, Close i) ?A = Some s'' \<Longrightarrow>
          pending ?A = [] \<and> pending s'' = [(next_handle ?A, t + 2000)]"
    by blast+
  from t2 rB have c6: "\<And>t i s''. step ?P (t, Open i) ?B = Some s'' \<Longrightarrow> pending s'' = []"
    by blast
  from c5 [OF cA] have c7: "pending ?A = [] \<and> pending (ws_onclose 9000 (set_readyState 1 CLOSED ?A)) = [(2, 11000)]"
    by simp
  from c6 [OF oB] have c8: "pending (ws_onopen (set_readyState 1 OPEN ?B)) = []" .
  show ?thesis
    using c1 h c3 rA c4 cA c7 rB oB c8 by blast
qed

text \<open>
  C1 as stated fails. When the effect of the hook runs a second time (its cleanup, then
  \<open>connect\<close>), the first socket is closing while the second connects. The close event
  of the first, at time 0, sets a timeout; the close event of the second, at time 500,
  finds that timeout pending and sets a second one all the same: two reconnect timeouts
  are pending.
\<close>

theorem second_close_adds_second_timer:
  "map_option pending
     (run Map.empty [(0, Close 0), (500, Close 1)] (connect (effect_cleanup mount)))
   = Some [(1, 2000), (2, 2500)]"
  by (simp add: mount_def ws_init_def connect_def is_open_def effect_cleanup_def socket_close_def
      set_readyState_def ws_onclose_def clearTimeout_def)


lemma ws_onmessage_cases:
  "ws_onmessage parse raw s =
     (case parse raw of
        None \<Rightarrow> Inr (s\<lparr>errors_logged := errors_logged s @ [''Parse error:'']\<rparr>)
      | Some d \<Rightarrow>
          if d = JNull then Inr (s\<lparr>errors_logged := errors_logged s @ [''Parse error:'']\<rparr>)
          else if frame_type d = Some (JStr ''state'')
          then Inr (s\<lparr>state := (case d of JObj fs \<Rightarrow> map_of fs ''state'' | _ \<Rightarrow> None)\<rparr>)
          else Inr s)"
proof (cases "parse raw")
  case None
  then show ?thesis by (simp add: ws_onmessage_def onmessage_try_def)
next
  case (Some d)
  then show ?thesis
    by (cases d) (simp_all add: ws_onmessage_def onmessage_try_def frame_type_def)
qed

text \<open>
  C2. When the text of a message does not decode, or decodes to a frame whose kind is
  not \<open>state\<close>, the handler returns normally (\<open>Inr\<close>: nothing is thrown out of it) and
  the published snapshot is the one before.
\<close>

theorem ws_onmessage_keeps_snapshot:
  assumes "parse raw = None \<or> (\<exists>d. parse raw = Some d \<and> frame_type d \<noteq> Some (JStr ''state''))"
  shows "\<exists>s'. ws_onmessage parse raw s = Inr s' \<and> state s' = state s"
  using assms by (auto simp: ws_onmessage_cases)

theorem ws_onmessage_keeps_snapshot_witness:
  "(\<exists>s'. ws_onmessage parse_example ''{'' mount = Inr s' \<and> state s' = state mount)
   \<and> (\<exists>s'. ws_onmessage parse_example ''null'' mount = Inr s' \<and> state s' = state mount)
   \<and> (\<exists>s'. ws_onmessage parse_example ''chat frame'' mount = Inr s' \<and> state s' = state mount)"
proof -
  have a: "parse_example ''{'' = None \<or>
      (\<exists>d. parse_example ''{'' = Some d \<and> frame_type d \<noteq> Some (JStr ''state''))"
    by (simp add: parse_example_def)
  have b: "parse_example ''null'' = None \<or>
      (\<exists>d. parse_example ''null'' = Some d \<and> frame_type d \<noteq> Some (JStr ''state''))"
    by (simp add: parse_example_def frame_type_def)
  have c: "parse_example ''chat frame'' = None \<or>
      (\<exists>d. parse_example ''chat frame'' = Some d \<and> frame_type d \<noteq> Some (JStr ''state''))"
    by (simp add: parse_example_def frame_type_def)
  from ws_onmessage_keeps_snapshot [where parse = parse_example and s = mount, OF a]
    ws_onmessage_keeps_snapshot [where parse = parse_example and s = mount, OF b]
    ws_onmessage_keeps_snapshot [where parse = parse_example and s = mount, OF c]
  show ?thesis by blast
qed




section \<open>Properties of the turn clock\<close>

lemma clear_ref_fields:
  "timeLeft (clear_ref t) = timeLeft t" "next_interval (clear_ref t) = next_interval t"
  "ticks (clear_ref t) = ticks t"
  by (simp_all add: clear_ref_def split: option.split)

lemma clear_ref_inv:
  assumes "clock_inv d (deps, t)"
  shows "intervals (clear_ref t) = []" "intervalRef (clear_ref t) = None"
  using assms by (auto simp: clock_inv_def clear_ref_def)

lemma clear_ref_idle:
  "intervals t = [] \<Longrightarrow> intervalRef t = None \<Longrightarrow> clear_ref t = t"
  by (simp add: clear_ref_def)

lemma timer_effect_idle:
  assumes "intervals t = []" "intervalRef t = None"
  shows "timer_effect a p d t =
     (if \<not> a \<or> \<not> truthy p then t\<lparr>timeLeft := d\<rparr>
      else t\<lparr>timeLeft := d, intervals := [next_interval t],
             intervalRef := Some (next_interval t), next_interval := next_interval t + 1\<rparr>)"
  using assms by (simp add: timer_effect_def clear_ref_idle)

lemma timer_effect_clear_ref: "timer_effect a p d (clear_ref t) = timer_effect a p d t"
  by (simp add: timer_effect_def clear_ref_def split: option.split)

lemma timer_effect_inv:
  assumes d: "0 \<le> d" and inv: "clock_inv d (deps, t)"
  shows "clock_inv d ((a, p), timer_effect a p d t)" "timeLeft (timer_effect a p d t) = d"
    "\<not> a \<or> \<not> truthy p \<Longrightarrow> intervals (timer_effect a p d t) = [] \<and> intervalRef (timer_effect a p d t) = None"
proof -
  have e: "timer_effect a p d t = timer_effect a p d (clear_ref t)"
    by (simp add: timer_effect_clear_ref)
  note i = clear_ref_inv [OF inv]
  from inv have n: "0 < next_interval (clear_ref t)"
    by (simp add: clock_inv_def clear_ref_fields)
  show "clock_inv d ((a, p), timer_effect a p d t)"
    unfolding e timer_effect_idle [OF i] using d n i
    by (auto simp: clock_inv_def)
  show "timeLeft (timer_effect a p d t) = d"
    unfolding e timer_effect_idle [OF i] by simp
  show "\<not> a \<or> \<not> truthy p \<Longrightarrow> intervals (timer_effect a p d t) = [] \<and> intervalRef (timer_effect a p d t) = None"
    unfolding e timer_effect_idle [OF i] using i by auto
qed

lemma clock_inv_mount: "0 \<le> d \<Longrightarrow> clock_inv d (mount_clock a p d)"
proof -
  assume d: "0 \<le> d"
  have "clock_inv d ((a, p), \<lparr>timeLeft = d, intervalRef = None, intervals = [], next_interval = 1, ticks = []\<rparr>)"
    using d by (simp add: clock_inv_def)
  from timer_effect_inv(1) [OF d this] show ?thesis
    by (simp add: mount_clock_def)
qed

lemma interval_callback_inv:
  assumes inv: "clock_inv d (deps, t)"
  shows "clock_inv d (deps, interval_callback t)"
proof (cases "timeLeft t - 1 \<le> 0")
  case True
  then have "interval_callback t = (clear_ref (if timeLeft t - 1 \<le> 5 \<and> timeLeft t - 1 > 0 then t\<lparr>ticks := ticks t @ [timeLeft t - 1]\<rparr> else t))\<lparr>timeLeft := 0\<rparr>"
    by (simp add: interval_callback_def Let_def)
  with True have c: "interval_callback t = (clear_ref t)\<lparr>timeLeft := 0\<rparr>"
    by simp
  from inv have "0 \<le> d" by (simp add: clock_inv_def)
  with inv clear_ref_inv [OF inv] show ?thesis
    unfolding c by (simp add: clock_inv_def clear_ref_fields)
next
  case False
  then have c: "interval_callback t =
      (if timeLeft t - 1 \<le> 5 then t\<lparr>ticks := ticks t @ [timeLeft t - 1]\<rparr> else t)\<lparr>timeLeft := timeLeft t - 1\<rparr>"
    by (simp add: interval_callback_def Let_def)
  from inv False show ?thesis
    unfolding c by (auto simp: clock_inv_def)
qed

lemma clock_step_inv:
  assumes d: "0 \<le> d" and inv: "clock_inv d c" and st: "clock_step d e c = Some c'"
  shows "clock_inv d c'"
proof -
  obtain deps t where c: "c = (deps, t)" by (cases c)
  show ?thesis
  proof (cases e)
    case (Render a p)
    show ?thesis
    proof (cases "(a, p) = deps")
      case True
      with st inv c Render show ?thesis by simp
    next
      case False
      with st c Render have c': "c' = ((a, p), timer_effect a p d (if fst deps \<and> truthy (snd deps) then clear_ref t else t))"
        by (auto simp: timer_cleanup_def)
      have "c' = ((a, p), timer_effect a p d t)"
        unfolding c' by (simp add: timer_effect_clear_ref)
      with timer_effect_inv(1) [OF d inv [unfolded c]] show ?thesis by simp
    qed
  next
    case (IntervalFire h)
    with st c have "c' = (deps, interval_callback t)"
      by (simp split: if_splits)
    with interval_callback_inv [OF inv [unfolded c]] show ?thesis by simp
  qed
qed

lemma clock_run_inv:
  "0 \<le> d \<Longrightarrow> clock_inv d c \<Longrightarrow> clock_run d es c = Some c' \<Longrightarrow> clock_inv d c'"
proof (induction es arbitrary: c)
  case Nil
  then show ?case by simp
next
  case (Cons e es)
  then show ?case
    by (auto split: option.splits dest: clock_step_inv)
qed

lemma clock_reachable_inv:
  "0 \<le> d \<Longrightarrow> clock_run d es (mount_clock a p d) = Some c \<Longrightarrow> clock_inv d c"
  using clock_inv_mount clock_run_inv by blast

text \<open>
  C3. For a clock of duration \<open>d \<ge> 0\<close> (the app passes 20), in every state reached
  from the mount: the countdown starts at \<open>d\<close> and is within \<open>[0, d]\<close>; a render in
  which the active flag or the player changed resets it to \<open>d\<close>; a tick above 1
  decrements it by one; a tick at 1 or below sets it to 0 and stops the interval, so
  that it stays at 0 until the next change; at 0 no interval runs; when the new props
  are inactive or without a player, the interval is cancelled and the countdown is
  back at \<open>d\<close>; no interval runs while the props are inactive; and at most one
  interval runs at any time.
\<close>

theorem turn_clock_countdown:
  assumes d: "0 \<le> d" and r: "clock_run d es (mount_clock a p d) = Some (deps, t)"
  shows "timeLeft (snd (mount_clock a p d)) = d
    \<and> 0 \<le> timeLeft t \<and> timeLeft t \<le> d
    \<and> (\<forall>a' p' c'. (a', p') \<noteq> deps \<and> clock_step d (Render a' p') (deps, t) = Some c'
          \<longrightarrow> timeLeft (snd c') = d)
    \<and> (\<forall>h c'. 1 < timeLeft t \<and> clock_step d (IntervalFire h) (deps, t) = Some c'
          \<longrightarrow> timeLeft (snd c') = timeLeft t - 1)
    \<and> (\<forall>h c'. timeLeft t \<le> 1 \<and> clock_step d (IntervalFire h) (deps, t) = Some c'
          \<longrightarrow> timeLeft (snd c') = 0 \<and> intervals (snd c') = [])
    \<and> (timeLeft t = 0 \<and> 0 < d \<longrightarrow> intervals t = [])
    \<and> (\<forall>a' p' c'. (\<not> a' \<or> \<not> truthy p') \<and> (a', p') \<noteq> deps
            \<and> clock_step d (Render a' p') (deps, t) = Some c'
          \<longrightarrow> intervals (snd c') = [] \<and> intervalRef (snd c') = None \<and> timeLeft (snd c') = d)
    \<and> (\<not> (fst deps \<and> truthy (snd deps)) \<longrightarrow> intervals t = [])
    \<and> length (intervals t) \<le> 1"
proof -
  from d r have inv: "clock_inv d (deps, t)" by (rule clock_reachable_inv)
  have m: "timeLeft (snd (mount_clock a p d)) = d"
    by (simp add: mount_clock_def timer_effect_idle)
  from inv have range: "0 \<le> timeLeft t \<and> timeLeft t \<le> d"
    by (simp add: clock_inv_def)
  have eff: "timer_effect a' p' d (if fst deps \<and> truthy (snd deps) then timer_cleanup t else t)
      = timer_effect a' p' d t" for a' p'
    by (simp add: timer_cleanup_def timer_effect_clear_ref)
  have reset: "timeLeft (snd c') = d"
    if "(a', p') \<noteq> deps \<and> clock_step d (Render a' p') (deps, t) = Some c'" for a' p' c'
    using that timer_effect_inv(2) [OF d inv] by (auto simp: eff)
  have dec: "timeLeft (snd c') = timeLeft t - 1"
    if "1 < timeLeft t \<and> clock_step d (IntervalFire h) (deps, t) = Some c'" for h c'
    using that by (auto simp: interval_callback_def Let_def split: if_splits)
  have expire: "timeLeft (snd c') = 0 \<and> intervals (snd c') = []"
    if "timeLeft t \<le> 1 \<and> clock_step d (IntervalFire h) (deps, t) = Some c'" for h c'
  proof -
    from that have c': "c' = (deps, interval_callback t)" and le: "timeLeft t - 1 \<le> 0"
      by (auto split: if_splits)
    from le have "interval_callback t = (clear_ref t)\<lparr>timeLeft := 0\<rparr>"
      by (simp add: interval_callback_def Let_def)
    with clear_ref_inv(1) [OF inv] show ?thesis by (simp add: c')
  qed
  from inv have stopped: "timeLeft t = 0 \<and> 0 < d \<longrightarrow> intervals t = []"
    by (auto simp: clock_inv_def)
  have leave: "intervals (snd c') = [] \<and> intervalRef (snd c') = None \<and> timeLeft (snd c') = d"
    if "(\<not> a' \<or> \<not> truthy p') \<and> (a', p') \<noteq> deps
        \<and> clock_step d (Render a' p') (deps, t) = Some c'" for a' p' c'
  proof -
    from that have c': "c' = ((a', p'), timer_effect a' p' d t)" and off: "\<not> a' \<or> \<not> truthy p'"
      by (auto simp: eff)
    from timer_effect_inv(3) [OF d inv off] timer_effect_inv(2) [OF d inv] show ?thesis
      by (simp add: c')
  qed
  from inv have idle: "\<not> (fst deps \<and> truthy (snd deps)) \<longrightarrow> intervals t = []"
    by (auto simp: clock_inv_def)
  from inv have one: "length (intervals t) \<le> 1"
    by (auto simp: clock_inv_def)
  from m range reset dec expire stopped leave idle one show ?thesis
    by blast
qed

text \<open>
  C4. One run of the interval callback calls \<open>sounds.tick()\<close> once if the new
  remaining time \<open>timeLeft - 1\<close> is in \<open>(0, 5]\<close> and not at all otherwise. Over the
  whole countdown from 20 the cue is emitted at 5, 4, 3, 2 and 1, and at no other
  value.
\<close>

theorem low_time_tick:
  "ticks (interval_callback t)
     = ticks t @ (if 0 < timeLeft t - 1 \<and> timeLeft t - 1 \<le> 5 then [timeLeft t - 1] else [])
   \<and> map_option (ticks \<circ> snd)
        (clock_run 20 (replicate 20 (IntervalFire 1)) (mount_clock True (Some ''Ann'') 20))
       = Some [5, 4, 3, 2, 1]"
proof
  show "ticks (interval_callback t)
     = ticks t @ (if 0 < timeLeft t - 1 \<and> timeLeft t - 1 \<le> 5 then [timeLeft t - 1] else [])"
    by (simp add: interval_callback_def Let_def clear_ref_fields)
  show "map_option (ticks \<circ> snd)
        (clock_run 20 (replicate 20 (IntervalFire 1)) (mount_clock True (Some ''Ann'') 20))
       = Some [5, 4, 3, 2, 1]"
    by code_simp
qed

text \<open>
  C10. For a snapshot whose \<open>turnIdx\<close> is negative or not below the number of players,
  the derivation yields no current player and no player name for the clock, and it is
  nobody's turn; a clock in any state reached from its mount, rendered with the props of
  that snapshot, has no interval running afterwards, so that no tick can occur, and it
  renders nothing.
\<close>

theorem no_active_player_safe:
  assumes idx: "turnIdx g < 0 \<or> int (length (players g)) \<le> turnIdx g"
    and r: "0 \<le> d" "clock_run d es (mount_clock a p d) = Some c"
  shows "currentPlayer (Some g) = None
    \<and> timer_player (Some g) = None
    \<and> \<not> isMyTurn (Some g) nm
    \<and> (\<exists>c'. clock_step d (Render (timer_isActive (Some g)) (timer_player (Some g))) c = Some c'
          \<and> intervals (snd c') = []
          \<and> (\<forall>h. clock_step d (IntervalFire h) c' = None)
          \<and> TurnTimer_render (timer_isActive (Some g)) (timer_player (Some g)) (snd c') = None)"
proof -
  from idx have cp: "currentPlayer (Some g) = None"
    by (auto simp: currentPlayer_def players_at_def)
  then have tp: "timer_player (Some g) = None"
    by (simp add: timer_player_def)
  from cp have mt: "\<not> isMyTurn (Some g) nm"
    by (simp add: isMyTurn_def)
  obtain deps t where c: "c = (deps, t)" by (cases c)
  from r have inv: "clock_inv d (deps, t)" unfolding c by (rule clock_reachable_inv)
  let ?a = "timer_isActive (Some g)"
  obtain c' where st: "clock_step d (Render ?a None) c = Some c'"
    unfolding c by (cases "(?a, None) = deps") simp_all
  have off: "\<not> ?a \<or> \<not> truthy None" by (simp add: truthy_def)
  have i: "intervals (snd c') = []"
  proof (cases "(?a, None) = deps")
    case True
    with st c have "c' = (deps, t)" by simp
    moreover from True have "\<not> truthy (snd deps)" by (auto simp: truthy_def)
    ultimately show ?thesis using inv by (auto simp: clock_inv_def)
  next
    case False
    with st c have "c' = ((?a, None), timer_effect ?a None d t)"
      by (auto simp: timer_cleanup_def timer_effect_clear_ref)
    with timer_effect_inv(3) [OF r(1) inv off] show ?thesis by simp
  qed
  have f: "clock_step d (IntervalFire h) c' = None" for h
    using i by (cases c') simp
  have rn: "TurnTimer_render ?a None (snd c') = None"
    by (simp add: TurnTimer_render_def truthy_def)
  from cp tp mt st i f rn show ?thesis
    by (simp add: tp)
qed

theorem turn_clock_countdown_witness:
  "(0::int) \<le> 20
   \<and> clock_run 20 [IntervalFire 1, IntervalFire 1] (mount_clock True (Some ''Ann'') 20)
       = Some ((True, Some ''Ann''),
           \<lparr>timeLeft = 18, intervalRef = Some 1, intervals = [1], next_interval = 2, ticks = []\<rparr>)
   \<and> timeLeft (snd (mount_clock True (Some ''Ann'') 20)) = 20
   \<and> clock_step 20 (Render True (Some ''Bob'')) ((True, Some ''Ann''),
           \<lparr>timeLeft = 18, intervalRef = Some 1, intervals = [1], next_interval = 2, ticks = []\<rparr>)
       = Some ((True, Some ''Bob''),
           \<lparr>timeLeft = 20, intervalRef = Some 2, intervals = [2], next_interval = 3, ticks = []\<rparr>)
   \<and> clock_step 20 (IntervalFire 1) ((True, Some ''Ann''),
           \<lparr>timeLeft = 18, intervalRef = Some 1, intervals = [1], next_interval = 2, ticks = []\<rparr>)
       = Some ((True, Some ''Ann''),
           \<lparr>timeLeft = 17, intervalRef = Some 1, intervals = [1], next_interval = 2, ticks = []\<rparr>)
   \<and> clock_step 20 (Render False None) ((True, Some ''Ann''),
           \<lparr>timeLeft = 18, intervalRef = Some 1, intervals = [1], next_interval = 2, ticks = []\<rparr>)
       = Some ((False, None),
           \<lparr>timeLeft = 20, intervalRef = None, intervals = [], next_interval = 2, ticks = []\<rparr>)
   \<and> (0::int) \<le> 2
   \<and> clock_run 2 [IntervalFire 1] (mount_clock True (Some ''Ann'') 2)
       = Some ((True, Some ''Ann''),
           \<lparr>timeLeft = 1, intervalRef = Some 1, intervals = [1], next_interval = 2, ticks = [1]\<rparr>)
   \<and> clock_step 2 (IntervalFire 1) ((True, Some ''Ann''),
           \<lparr>timeLeft = 1, intervalRef = Some 1, intervals = [1], next_interval = 2, ticks = [1]\<rparr>)
       = Some ((True, Some ''Ann''),
           \<lparr>timeLeft = 0, intervalRef = None, intervals = [], next_interval = 2, ticks = [1]\<rparr>)
   \<and> clock_run 2 [IntervalFire 1, IntervalFire 1] (mount_clock True (Some ''Ann'') 2)
       = Some ((True, Some ''Ann''),
           \<lparr>timeLeft = 0, intervalRef = None, intervals = [], next_interval = 2, ticks = [1]\<rparr>)
   \<and> clock_step 2 (IntervalFire 1) ((True, Some ''Ann''),
           \<lparr>timeLeft = 0, intervalRef = None, intervals = [], next_interval = 2, ticks = [1]\<rparr>)
       = None
   \<and> 0 \<le> timeLeft
           \<lparr>timeLeft = 1, intervalRef = Some 1, intervals = [1], next_interval = 2, ticks = [1]\<rparr>
   \<and> timeLeft
           \<lparr>timeLeft = 0, intervalRef = None, intervals = [], next_interval = 2, ticks = [1]\<rparr> \<le> 2"
proof -
  let ?ann = "(True, Some ''Ann'')"
  let ?T18 = "\<lparr>timeLeft = 18, intervalRef = Some 1, intervals = [1], next_interval = 2, ticks = []\<rparr>"
  let ?T1 = "\<lparr>timeLeft = 1, intervalRef = Some 1, intervals = [1], next_interval = 2, ticks = [1]\<rparr>"
  let ?T0 = "\<lparr>timeLeft = 0, intervalRef = None, intervals = [], next_interval = 2, ticks = [1]\<rparr>"
  have r18: "clock_run 20 [IntervalFire 1, IntervalFire 1] (mount_clock True (Some ''Ann'') 20)
      = Some (?ann, ?T18)"
    by (simp add: mount_clock_def timer_effect_def clear_ref_def truthy_def interval_callback_def)
  have r1: "clock_run 2 [IntervalFire 1] (mount_clock True (Some ''Ann'') 2) = Some (?ann, ?T1)"
    by (simp add: mount_clock_def timer_effect_def clear_ref_def truthy_def interval_callback_def)
  have r0: "clock_run 2 [IntervalFire 1, IntervalFire 1] (mount_clock True (Some ''Ann'') 2)
      = Some (?ann, ?T0)"
    by (simp add: mount_clock_def timer_effect_def clear_ref_def truthy_def interval_callback_def)
  have s1: "clock_step 20 (Render True (Some ''Bob'')) (?ann, ?T18)
      = Some ((True, Some ''Bob''),
           \<lparr>timeLeft = 20, intervalRef = Some 2, intervals = [2], next_interval = 3, ticks = []\<rparr>)"
    by (simp add: timer_effect_def timer_cleanup_def clear_ref_def truthy_def)
  have s2: "clock_step 20 (IntervalFire 1) (?ann, ?T18)
      = Some (?ann, \<lparr>timeLeft = 17, intervalRef = Some 1, intervals = [1], next_interval = 2, ticks = []\<rparr>)"
    by (simp add: interval_callback_def)
  have s3: "clock_step 20 (Render False None) (?ann, ?T18)
      = Some ((False, None),
           \<lparr>timeLeft = 20, intervalRef = None, intervals = [], next_interval = 2, ticks = []\<rparr>)"
    by (simp add: timer_effect_def timer_cleanup_def clear_ref_def truthy_def)
  have s4: "clock_step 2 (IntervalFire 1) (?ann, ?T1) = Some (?ann, ?T0)"
    by (simp add: interval_callback_def clear_ref_def)
  have s5: "clock_step 2 (IntervalFire 1) (?ann, ?T0) = None"
    by simp
  have d20: "(0::int) \<le> 20" and d2: "(0::int) \<le> 2" by simp_all
  note w18 = turn_clock_countdown [OF d20 r18]
  note w1 = turn_clock_countdown [OF d2 r1]
  note w0 = turn_clock_countdown [OF d2 r0]
  have b1: "0 \<le> timeLeft ?T1"
    by (rule w1 [THEN conjunct2, THEN conjunct1])
  have b0: "timeLeft ?T0 \<le> 2"
    by (rule w0 [THEN conjunct2, THEN conjunct2, THEN conjunct1])
  from w18 have m: "timeLeft (snd (mount_clock True (Some ''Ann'') 20)) = 20"
    by (rule conjunct1)
  show ?thesis
    by (intro conjI) (rule d20 d2 r18 m s1 s2 s3 r1 s4 r0 s5 b1 b0)+
qed

theorem low_time_tick_witness:
  "ticks (interval_callback
      \<lparr>timeLeft = 6, intervalRef = Some 1, intervals = [1], next_interval = 2, ticks = []\<rparr>) = [5]
   \<and> ticks (interval_callback
      \<lparr>timeLeft = 7, intervalRef = Some 1, intervals = [1], next_interval = 2, ticks = []\<rparr>) = []
   \<and> ticks (interval_callback
      \<lparr>timeLeft = 1, intervalRef = Some 1, intervals = [1], next_interval = 2, ticks = [1]\<rparr>) = [1]"
  using
    low_time_tick [of "\<lparr>timeLeft = 6, intervalRef = Some 1, intervals = [1], next_interval = 2, ticks = []\<rparr>"]
    low_time_tick [of "\<lparr>timeLeft = 7, intervalRef = Some 1, intervals = [1], next_interval = 2, ticks = []\<rparr>"]
    low_time_tick [of "\<lparr>timeLeft = 1, intervalRef = Some 1, intervals = [1], next_interval = 2, ticks = [1]\<rparr>"]
  by simp

theorem no_active_player_safe_witness:
  "(turnIdx \<lparr>code = ''ROOM42'', players = [ann], dealer = [], phase = PLAYER, turnIdx = 1\<rparr> < 0
      \<or> int (length (players \<lparr>code = ''ROOM42'', players = [ann], dealer = [], phase = PLAYER, turnIdx = 1\<rparr>))
          \<le> turnIdx \<lparr>code = ''ROOM42'', players = [ann], dealer = [], phase = PLAYER, turnIdx = 1\<rparr>)
   \<and> (0::int) \<le> 20
   \<and> clock_run 20 [IntervalFire 1] (mount_clock True (Some ''Ann'') 20)
       = Some ((True, Some ''Ann''),
           \<lparr>timeLeft = 19, intervalRef = Some 1, intervals = [1], next_interval = 2, ticks = []\<rparr>)
   \<and> currentPlayer (Some \<lparr>code = ''ROOM42'', players = [ann], dealer = [], phase = PLAYER, turnIdx = 1\<rparr>) = None
   \<and> timer_player (Some \<lparr>code = ''ROOM42'', players = [ann], dealer = [], phase = PLAYER, turnIdx = 1\<rparr>) = None
   \<and> clock_step 20 (Render True None) ((True, Some ''Ann''),
           \<lparr>timeLeft = 19, intervalRef = Some 1, intervals = [1], next_interval = 2, ticks = []\<rparr>)
       = Some ((True, None),
           \<lparr>timeLeft = 20, intervalRef = None, intervals = [], next_interval = 2, ticks = []\<rparr>)
   \<and> clock_step 20 (IntervalFire 1) ((True, None),
           \<lparr>timeLeft = 20, intervalRef = None, intervals = [], next_interval = 2, ticks = []\<rparr>) = None
   \<and> currentPlayer (Some \<lparr>code = ''ROOM42'', players = [ann], dealer = [], phase = PLAYER, turnIdx = - 1\<rparr>) = None"
proof -
  let ?g = "\<lparr>code = ''ROOM42'', players = [ann], dealer = [], phase = PLAYER, turnIdx = 1\<rparr>"
  let ?h = "\<lparr>code = ''ROOM42'', players = [ann], dealer = [], phase = PLAYER, turnIdx = - 1\<rparr>"
  let ?T19 = "\<lparr>timeLeft = 19, intervalRef = Some 1, intervals = [1], next_interval = 2, ticks = []\<rparr>"
  have i: "turnIdx ?g < 0 \<or> int (length (players ?g)) \<le> turnIdx ?g" by simp
  have j: "turnIdx ?h < 0 \<or> int (length (players ?h)) \<le> turnIdx ?h" by simp
  have d: "(0::int) \<le> 20" by simp
  have r: "clock_run 20 [IntervalFire 1] (mount_clock True (Some ''Ann'') 20)
      = Some ((True, Some ''Ann''), ?T19)"
    by (simp add: mount_clock_def timer_effect_def clear_ref_def truthy_def interval_callback_def)
  have s: "clock_step 20 (Render True None) ((True, Some ''Ann''), ?T19)
      = Some ((True, None),
           \<lparr>timeLeft = 20, intervalRef = None, intervals = [], next_interval = 2, ticks = []\<rparr>)"
    by (simp add: timer_effect_def timer_cleanup_def clear_ref_def truthy_def)
  note w = no_active_player_safe [OF i d r] no_active_player_safe [OF j d r]
  from w(1) have c1: "currentPlayer (Some ?g) = None"
    by (rule conjunct1)
  have c2: "timer_player (Some ?g) = None"
    by (rule w(1) [THEN conjunct2, THEN conjunct1])
  from w(2) have c3: "currentPlayer (Some ?h) = None"
    by (rule conjunct1)
  have f: "clock_step 20 (IntervalFire 1) ((True, None),
           \<lparr>timeLeft = 20, intervalRef = None, intervals = [], next_interval = 2, ticks = []\<rparr>) = None"
    by simp
  show ?thesis
    by (intro conjI) (rule i d r c1 c2 c3 s f)+
qed

end
